theory Spec2Isabelle
  imports Main
begin

section \<open>The user record\<close>

text \<open>
  The Go struct \<^verbatim>\<open>User\<close> of \<^verbatim>\<open>main.go\<close>: an integer identifier, a name and an
  email. Strings are byte lists, as Go strings are. The same struct is the table row, the
  decoded request payload and the encoded response value.
\<close>

record user =
  ID :: int
  Name :: string
  Email :: string

definition zero_user :: user where
  "zero_user = \<lparr>ID = 0, Name = [], Email = []\<rparr>"

section \<open>Regular expressions and \<^verbatim>\<open>isValidEmail\<close>\<close>

text \<open>
  \<^verbatim>\<open>isValidEmail\<close> compiles the pattern
  \<^verbatim>\<open>^[a-zA-Z0-9._%+-]+@[a-zA-Z0-9.-]+\.[a-zA-Z]{2,}$\<close> and asks whether the string
  matches. The pattern is anchored at both ends, so the whole string must belong to the
  language of the expression between the anchors. A character class is a list of
  inclusive byte ranges; a single character is the range from itself to itself.
\<close>

datatype rexp =
    Nul
  | Eps
  | Cls "(char \<times> char) list"
  | Seq rexp rexp
  | Alt rexp rexp
  | Star rexp

definition in_range :: "char \<Rightarrow> char \<times> char \<Rightarrow> bool" where
  "in_range c p = ((of_char (fst p) :: nat) \<le> of_char c \<and> (of_char c :: nat) \<le> of_char (snd p))"

definition in_cls :: "char \<Rightarrow> (char \<times> char) list \<Rightarrow> bool" where
  "in_cls c rs = list_ex (in_range c) rs"

fun nullable :: "rexp \<Rightarrow> bool" where
  "nullable Nul = False"
| "nullable Eps = True"
| "nullable (Cls rs) = False"
| "nullable (Seq r s) = (nullable r \<and> nullable s)"
| "nullable (Alt r s) = (nullable r \<or> nullable s)"
| "nullable (Star r) = True"

fun deriv :: "char \<Rightarrow> rexp \<Rightarrow> rexp" where
  "deriv c Nul = Nul"
| "deriv c Eps = Nul"
| "deriv c (Cls rs) = (if in_cls c rs then Eps else Nul)"
| "deriv c (Seq r s) =
     (if nullable r then Alt (Seq (deriv c r) s) (deriv c s) else Seq (deriv c r) s)"
| "deriv c (Alt r s) = Alt (deriv c r) (deriv c s)"
| "deriv c (Star r) = Seq (deriv c r) (Star r)"

fun derivs :: "rexp \<Rightarrow> string \<Rightarrow> rexp" where
  "derivs r [] = r"
| "derivs r (c # cs) = derivs (deriv c r) cs"

definition MatchString :: "rexp \<Rightarrow> string \<Rightarrow> bool" where
  "MatchString r s = nullable (derivs r s)"

text \<open>The language of an expression, as the reference semantics of matching.\<close>

definition conc :: "string set \<Rightarrow> string set \<Rightarrow> string set" where
  "conc A B = {xs @ ys | xs ys. xs \<in> A \<and> ys \<in> B}"

inductive_set star :: "string set \<Rightarrow> string set" for A :: "string set" where
  star_nil: "[] \<in> star A"
| star_app: "xs \<in> A \<Longrightarrow> ys \<in> star A \<Longrightarrow> xs @ ys \<in> star A"

fun lang :: "rexp \<Rightarrow> string set" where
  "lang Nul = {}"
| "lang Eps = {[]}"
| "lang (Cls rs) = {[c] | c. in_cls c rs}"
| "lang (Seq r s) = conc (lang r) (lang s)"
| "lang (Alt r s) = lang r \<union> lang s"
| "lang (Star r) = star (lang r)"

text \<open>The pieces of the pattern: \<^verbatim>\<open>r+\<close> and \<^verbatim>\<open>r{2,}\<close>, and the three classes.\<close>

definition one_or_more :: "rexp \<Rightarrow> rexp" where
  "one_or_more r = Seq r (Star r)"

definition two_or_more :: "rexp \<Rightarrow> rexp" where
  "two_or_more r = Seq r (Seq r (Star r))"

definition lit :: "char \<Rightarrow> rexp" where
  "lit c = Cls [(c, c)]"

definition alnum :: "(char \<times> char) list" where
  "alnum = [(CHR ''a'', CHR ''z''), (CHR ''A'', CHR ''Z''), (CHR ''0'', CHR ''9'')]"

definition local_cls :: "(char \<times> char) list" where
  "local_cls = alnum @ [(CHR ''.'', CHR ''.''), (CHR ''_'', CHR ''_''), (CHR ''%'', CHR ''%''),
     (CHR ''+'', CHR ''+''), (CHR ''-'', CHR ''-'')]"

definition domain_cls :: "(char \<times> char) list" where
  "domain_cls = alnum @ [(CHR ''.'', CHR ''.''), (CHR ''-'', CHR ''-'')]"

definition alpha_cls :: "(char \<times> char) list" where
  "alpha_cls = [(CHR ''a'', CHR ''z''), (CHR ''A'', CHR ''Z'')]"

definition email_re :: rexp where
  "email_re =
     Seq (one_or_more (Cls local_cls))
       (Seq (lit (CHR ''@''))
         (Seq (one_or_more (Cls domain_cls))
           (Seq (lit (CHR ''.'')) (two_or_more (Cls alpha_cls)))))"

definition isValidEmail :: "string \<Rightarrow> bool" where
  "isValidEmail email = MatchString email_re email"

section \<open>The response writer\<close>

text \<open>
  \<^verbatim>\<open>http.ResponseWriter\<close> as a record: the header map the handler edits, the status
  code once it has been written, the headers as they stood when the status was written
  (these are the ones the client receives), and the body written so far. A body chunk is
  either a plain text line (\<^verbatim>\<open>fmt.Fprintln\<close>) or the JSON encoding of a value followed
  by a newline (\<^verbatim>\<open>json.NewEncoder(w).Encode\<close>); the chunks keep the value that was
  encoded rather than its bytes.
\<close>

datatype jvalue = JUser user | JUsers "user list" | JString string

datatype chunk = Text string | Json jvalue

type_synonym header = "(string \<times> string) list"

fun header_set :: "string \<Rightarrow> string \<Rightarrow> header \<Rightarrow> header" where
  "header_set k v [] = [(k, v)]"
| "header_set k v (p # h) = (if fst p = k then (k, v) # h else p # header_set k v h)"

record rw =
  hdr :: header
  code :: "nat option"
  sent :: header
  out :: "chunk list"

definition new_rw :: rw where
  "new_rw = \<lparr>hdr = [], code = None, sent = [], out = []\<rparr>"

definition Header_Set :: "string \<Rightarrow> string \<Rightarrow> rw \<Rightarrow> rw" where
  "Header_Set k v w = w\<lparr>hdr := header_set k v (hdr w)\<rparr>"

text \<open>The first \<^verbatim>\<open>WriteHeader\<close> fixes the status and the headers; a later one is ignored.\<close>

definition WriteHeader :: "nat \<Rightarrow> rw \<Rightarrow> rw" where
  "WriteHeader c w = (if code w = None then w\<lparr>code := Some c, sent := hdr w\<rparr> else w)"

text \<open>A write before any \<^verbatim>\<open>WriteHeader\<close> sends status 200 first.\<close>

definition Write :: "chunk \<Rightarrow> rw \<Rightarrow> rw" where
  "Write b w = (let w' = WriteHeader 200 w in w'\<lparr>out := out w' @ [b]\<rparr>)"

definition Encode :: "jvalue \<Rightarrow> rw \<Rightarrow> rw" where
  "Encode v w = Write (Json v) w"

text \<open>
  \<^verbatim>\<open>http.Error(w, msg, code)\<close> of the Go standard library: it sets
  \<^verbatim>\<open>Content-Type: text/plain; charset=utf-8\<close> and \<^verbatim>\<open>X-Content-Type-Options: nosniff\<close>,
  writes the status and prints the message as a line.
\<close>

definition http_Error :: "rw \<Rightarrow> string \<Rightarrow> nat \<Rightarrow> rw" where
  "http_Error w msg c =
     Write (Text msg)
       (WriteHeader c
         (Header_Set ''X-Content-Type-Options'' ''nosniff''
           (Header_Set ''Content-Type'' ''text/plain; charset=utf-8'' w)))"

text \<open>
  What a request ends in: the handler returns and the response is sent, or
  \<^verbatim>\<open>log.Fatal\<close> ends the process and nothing is sent.
\<close>

datatype outcome = Fatal | Replied rw

fun status_of :: "outcome \<Rightarrow> nat option" where
  "status_of Fatal = None"
| "status_of (Replied w) = code w"

fun content_type_of :: "outcome \<Rightarrow> string option" where
  "content_type_of Fatal = None"
| "content_type_of (Replied w) = map_of (sent w) ''Content-Type''"

fun body_of :: "outcome \<Rightarrow> chunk list" where
  "body_of Fatal = []"
| "body_of (Replied w) = out w"

section \<open>The user store\<close>

text \<open>
  The table \<^verbatim>\<open>users (id SERIAL PRIMARY KEY, name, email)\<close>: its rows in scan order and
  the last value the identifier sequence has handed out. The statements are the eight SQL
  texts of \<^verbatim>\<open>main.go\<close> with their parameters; identifiers travel as the path text.
\<close>

record db =
  rows :: "user list"
  seq :: int

definition init_db :: db where
  "init_db = \<lparr>rows = [], seq = 0\<rparr>"

datatype stmt =
    SelectAll
  | SelectById string
  | SelectByNameOrEmail string string
  | InsertUser string string
  | SelectByEmailNotId string string
  | SelectNameEmailById string
  | UpdateUser string string string
  | DeleteById string

text \<open>
  The database engine is not part of the repository. Two things are left to it, and
  are parameters of the model: \<open>conv\<close>, how the engine reads the text of an identifier
  as an integer (\<open>None\<close> when it rejects the text), and \<open>fails\<close>, whether the engine
  or the connection reports an error for a statement. A statement that fails changes
  nothing.
\<close>

record env =
  conv :: "string \<Rightarrow> int option"
  fails :: "stmt \<Rightarrow> bool"

text \<open>
  The result of \<^verbatim>\<open>QueryRow(...).Scan(...)\<close>: an error other than
  \<^verbatim>\<open>sql.ErrNoRows\<close>, \<^verbatim>\<open>sql.ErrNoRows\<close>, or the scanned value.
\<close>

datatype 'a scan = SqlErr | ErrNoRows | Scanned 'a

definition first_row :: "(user \<Rightarrow> bool) \<Rightarrow> db \<Rightarrow> user scan" where
  "first_row P d = (case find P (rows d) of None \<Rightarrow> ErrNoRows | Some r \<Rightarrow> Scanned r)"

definition queryAll :: "env \<Rightarrow> db \<Rightarrow> user list option" where
  "queryAll e d = (if fails e SelectAll then None else Some (rows d))"

definition queryById :: "env \<Rightarrow> db \<Rightarrow> string \<Rightarrow> user scan" where
  "queryById e d i =
     (if fails e (SelectById i) then SqlErr
      else case conv e i of
        None \<Rightarrow> SqlErr
      | Some k \<Rightarrow> first_row (\<lambda>r. ID r = k) d)"

definition queryByNameOrEmail :: "env \<Rightarrow> db \<Rightarrow> string \<Rightarrow> string \<Rightarrow> user scan" where
  "queryByNameOrEmail e d n m =
     (if fails e (SelectByNameOrEmail n m) then SqlErr
      else first_row (\<lambda>r. Name r = n \<or> Email r = m) d)"

definition queryInsert :: "env \<Rightarrow> db \<Rightarrow> string \<Rightarrow> string \<Rightarrow> int scan \<times> db" where
  "queryInsert e d n m =
     (if fails e (InsertUser n m) then (SqlErr, d)
      else let k = seq d + 1
           in (Scanned k, d\<lparr>rows := rows d @ [\<lparr>ID = k, Name = n, Email = m\<rparr>], seq := k\<rparr>))"

definition queryByEmailNotId :: "env \<Rightarrow> db \<Rightarrow> string \<Rightarrow> string \<Rightarrow> user scan" where
  "queryByEmailNotId e d m i =
     (if fails e (SelectByEmailNotId m i) then SqlErr
      else case conv e i of
        None \<Rightarrow> SqlErr
      | Some k \<Rightarrow> first_row (\<lambda>r. Email r = m \<and> ID r \<noteq> k) d)"

definition queryNameEmailById :: "env \<Rightarrow> db \<Rightarrow> string \<Rightarrow> user scan" where
  "queryNameEmailById e d i =
     (if fails e (SelectNameEmailById i) then SqlErr
      else case conv e i of
        None \<Rightarrow> SqlErr
      | Some k \<Rightarrow>
          (case first_row (\<lambda>r. ID r = k) d of
             Scanned r \<Rightarrow> Scanned (zero_user\<lparr>Name := Name r, Email := Email r\<rparr>)
           | ErrNoRows \<Rightarrow> ErrNoRows
           | SqlErr \<Rightarrow> SqlErr))"

definition execUpdate :: "env \<Rightarrow> db \<Rightarrow> string \<Rightarrow> string \<Rightarrow> string \<Rightarrow> db option" where
  "execUpdate e d n m i =
     (if fails e (UpdateUser n m i) then None
      else case conv e i of
        None \<Rightarrow> None
      | Some k \<Rightarrow>
          Some (d\<lparr>rows := map (\<lambda>r. if ID r = k then r\<lparr>Name := n, Email := m\<rparr> else r) (rows d)\<rparr>))"

definition execDelete :: "env \<Rightarrow> db \<Rightarrow> string \<Rightarrow> db option" where
  "execDelete e d i =
     (if fails e (DeleteById i) then None
      else case conv e i of
        None \<Rightarrow> None
      | Some k \<Rightarrow> Some (d\<lparr>rows := filter (\<lambda>r. ID r \<noteq> k) (rows d)\<rparr>))"

text \<open>The variable a row is scanned into keeps its zero value unless a row was scanned.\<close>

fun scanned_into :: "user \<Rightarrow> user scan \<Rightarrow> user" where
  "scanned_into u (Scanned r) = r"
| "scanned_into u ErrNoRows = u"
| "scanned_into u SqlErr = u"

section \<open>The handlers\<close>

text \<open>
  A handler takes the engine's behaviour, the store, its request data and the response
  writer, and returns the outcome, the store afterwards and the statements it issued, in
  order. The request body is the result of \<^verbatim>\<open>json.Decode\<close>: \<open>None\<close> when decoding
  fails, the decoded struct otherwise.
\<close>

type_synonym result = "outcome \<times> db \<times> stmt list"

definition getUsers :: "env \<Rightarrow> db \<Rightarrow> rw \<Rightarrow> result" where
  "getUsers e d w =
     (case queryAll e d of
        None \<Rightarrow> (Fatal, d, [SelectAll])
      | Some users \<Rightarrow> (Replied (Encode (JUsers users) w), d, [SelectAll]))"

definition getUser :: "env \<Rightarrow> db \<Rightarrow> string \<Rightarrow> rw \<Rightarrow> result" where
  "getUser e d i w =
     (case queryById e d i of
        Scanned u \<Rightarrow> (Replied (Encode (JUser u) w), d, [SelectById i])
      | ErrNoRows \<Rightarrow> (Fatal, d, [SelectById i])
      | SqlErr \<Rightarrow> (Fatal, d, [SelectById i]))"

definition createUser :: "env \<Rightarrow> db \<Rightarrow> user option \<Rightarrow> rw \<Rightarrow> result" where
  "createUser e d body w =
     (case body of
        None \<Rightarrow> (Replied (http_Error w ''Invalid request payload'' 400), d, [])
      | Some u \<Rightarrow>
          if Name u = [] \<or> \<not> isValidEmail (Email u) then
            (Replied (http_Error w
               ''Invalid input: Name is required and Email must be valid'' 400), d, [])
          else
            let look = SelectByNameOrEmail (Name u) (Email u);
                res = queryByNameOrEmail e d (Name u) (Email u);
                existingUser = scanned_into zero_user res
            in if res = SqlErr then
                 (Replied (http_Error w ''Error checking for existing user'' 500), d, [look])
               else if ID existingUser \<noteq> 0 then
                 (Replied (http_Error w
                    ''User with the same name or email already exists'' 409), d, [look])
               else
                 (case queryInsert e d (Name u) (Email u) of
                    (Scanned k, d') \<Rightarrow>
                      (Replied (Encode (JUser (u\<lparr>ID := k\<rparr>)) (WriteHeader 201 w)), d',
                       [look, InsertUser (Name u) (Email u)])
                  | (_, d') \<Rightarrow>
                      (Replied (http_Error w ''Error creating user'' 500), d',
                       [look, InsertUser (Name u) (Email u)])))"

definition updateUser :: "env \<Rightarrow> db \<Rightarrow> string \<Rightarrow> user option \<Rightarrow> rw \<Rightarrow> result" where
  "updateUser e d i body w =
     (case body of
        None \<Rightarrow> (Replied (http_Error w ''Invalid request payload'' 400), d, [])
      | Some u \<Rightarrow>
          if Name u = [] \<or> Email u = [] then
            (Replied (http_Error w ''Name and Email are required'' 400), d, [])
          else
            let other = SelectByEmailNotId (Email u) i;
                res = queryByEmailNotId e d (Email u) i;
                existingUser = scanned_into zero_user res
            in if res = SqlErr then (Fatal, d, [other])
               else if ID existingUser \<noteq> 0 then
                 (Replied (http_Error w ''Email already in use by another user'' 409), d,
                  [other])
               else
                 let fetch = SelectNameEmailById i
                 in (case queryNameEmailById e d i of
                       Scanned currentUser \<Rightarrow>
                         if Name currentUser = Name u \<and> Email currentUser = Email u then
                           (Replied (http_Error w ''No changes detected'' 400), d,
                            [other, fetch])
                         else
                           (case execUpdate e d (Name u) (Email u) i of
                              None \<Rightarrow>
                                (Fatal, d, [other, fetch, UpdateUser (Name u) (Email u) i])
                            | Some d' \<Rightarrow>
                                (Replied (Encode (JUser u) w), d',
                                 [other, fetch, UpdateUser (Name u) (Email u) i]))
                     | _ \<Rightarrow> (Replied (http_Error w ''User not found'' 404), d, [other, fetch])))"

definition deleteUser :: "env \<Rightarrow> db \<Rightarrow> string \<Rightarrow> rw \<Rightarrow> result" where
  "deleteUser e d i w =
     (case execDelete e d i of
        None \<Rightarrow> (Fatal, d, [DeleteById i])
      | Some d' \<Rightarrow> (Replied (Encode (JString ''User deleted'') w), d', [DeleteById i]))"

section \<open>Routing and the middleware\<close>

text \<open>The five routes registered in \<^verbatim>\<open>main\<close>, with the data the handler reads.\<close>

datatype request =
    GET_users
  | GET_user string
  | POST_users "user option"
  | PUT_user string "user option"
  | DELETE_user string

fun router :: "env \<Rightarrow> db \<Rightarrow> request \<Rightarrow> rw \<Rightarrow> result" where
  "router e d GET_users w = getUsers e d w"
| "router e d (GET_user i) w = getUser e d i w"
| "router e d (POST_users body) w = createUser e d body w"
| "router e d (PUT_user i body) w = updateUser e d i body w"
| "router e d (DELETE_user i) w = deleteUser e d i w"

definition jsonContentTypeMiddleware :: "(rw \<Rightarrow> result) \<Rightarrow> rw \<Rightarrow> result" where
  "jsonContentTypeMiddleware next w = next (Header_Set ''Content-Type'' ''application/json'' w)"

definition serve :: "env \<Rightarrow> db \<Rightarrow> request \<Rightarrow> result" where
  "serve e d req = jsonContentTypeMiddleware (router e d req) new_rw"

definition reply :: "result \<Rightarrow> outcome" where
  "reply x = fst x"

definition store :: "result \<Rightarrow> db" where
  "store x = fst (snd x)"

definition issued :: "result \<Rightarrow> stmt list" where
  "issued x = snd (snd x)"

section \<open>Invariants of the store\<close>

text \<open>
  What the engine guarantees for a \<^verbatim>\<open>SERIAL PRIMARY KEY\<close> column: the identifiers are
  pairwise distinct, positive, and none exceeds the last value of the sequence.
\<close>

definition wf_store :: "db \<Rightarrow> bool" where
  "wf_store d =
     (distinct (map ID (rows d)) \<and> 0 \<le> seq d
      \<and> list_all (\<lambda>r. 0 < ID r \<and> ID r \<le> seq d) (rows d))"

definition uniq_emails :: "db \<Rightarrow> bool" where
  "uniq_emails d = distinct (map Email (rows d))"

definition uniq_names :: "db \<Rightarrow> bool" where
  "uniq_names d = distinct (map Name (rows d))"

definition filled :: "db \<Rightarrow> bool" where
  "filled d = list_all (\<lambda>r. Name r \<noteq> [] \<and> Email r \<noteq> []) (rows d)"

text \<open>
  The stores the service can be in: the empty table created at start-up, and whatever a
  request leaves behind, under any behaviour of the engine. A fatal exit keeps the
  store, and the restarted process finds the table as it was.
\<close>

inductive reachable :: "db \<Rightarrow> bool" where
  reach_init: "reachable init_db"
| reach_step: "reachable d \<Longrightarrow> reachable (store (serve e d req))"

section \<open>Example data\<close>

text \<open>
  An engine that reads an identifier written in decimal digits, within the range of a
  32-bit integer column, and never reports an error of its own; and one whose fetch of
  the current name and email of row 1 fails.
\<close>

definition digit_val :: "char \<Rightarrow> int" where
  "digit_val c = int (of_char c) - 48"

definition dec_id :: "string \<Rightarrow> int option" where
  "dec_id s =
     (if s \<noteq> [] \<and> list_all (\<lambda>c. in_range c (CHR ''0'', CHR ''9'')) s
        \<and> foldl (\<lambda>a c. 10 * a + digit_val c) 0 s \<le> 2147483647
      then Some (foldl (\<lambda>a c. 10 * a + digit_val c) 0 s) else None)"

definition never :: "stmt \<Rightarrow> bool" where
  "never s = False"

definition quiet_env :: env where
  "quiet_env = \<lparr>conv = dec_id, fails = never\<rparr>"

definition fetch1_fails :: "stmt \<Rightarrow> bool" where
  "fetch1_fails s = (s = SelectNameEmailById ''1'')"

definition flaky_env :: env where
  "flaky_env = \<lparr>conv = dec_id, fails = fetch1_fails\<rparr>"

definition other1_fails :: "stmt \<Rightarrow> bool" where
  "other1_fails s = (s = SelectByEmailNotId ''a2@b.co'' ''1'')"

definition broken_env :: env where
  "broken_env = \<lparr>conv = dec_id, fails = other1_fails\<rparr>"

definition row_a :: user where
  "row_a = \<lparr>ID = 1, Name = ''A'', Email = ''a@b.co''\<rparr>"

definition row_b :: user where
  "row_b = \<lparr>ID = 2, Name = ''B'', Email = ''b@b.co''\<rparr>"

definition db2 :: db where
  "db2 = \<lparr>rows = [row_a, row_b], seq = 2\<rparr>"

definition short_tld :: user where
  "short_tld = \<lparr>ID = 0, Name = ''A'', Email = ''a@b.c''\<rparr>"

definition renamed_a :: user where
  "renamed_a = \<lparr>ID = 1, Name = ''A2'', Email = ''a2@b.co''\<rparr>"

definition same_a :: user where
  "same_a = \<lparr>ID = 0, Name = ''A'', Email = ''a@b.co''\<rparr>"

definition carol :: user where
  "carol = \<lparr>ID = 0, Name = ''C'', Email = ''c@b.co''\<rparr>"

definition dup_name_bad_email :: user where
  "dup_name_bad_email = \<lparr>ID = 0, Name = ''A'', Email = ''not-an-email''\<rparr>"

definition dup_email :: user where
  "dup_email = \<lparr>ID = 0, Name = ''Z'', Email = ''a@b.co''\<rparr>"

definition no_name_dup_email :: user where
  "no_name_dup_email = \<lparr>ID = 0, Name = [], Email = ''a@b.co''\<rparr>"

definition b_takes_name_a :: user where
  "b_takes_name_a = \<lparr>ID = 2, Name = ''A'', Email = ''b@b.co''\<rparr>"

section \<open>Matching agrees with the language of the expression\<close>

lemma nullable_lang: "nullable r \<longleftrightarrow> [] \<in> lang r"
  by (induction r) (auto simp: conc_def intro: star.intros)

lemma star_cons_split:
  assumes "w \<in> star A" and "w = c # v"
  shows "\<exists>u t. v = u @ t \<and> c # u \<in> A \<and> t \<in> star A"
  using assms
proof (induction arbitrary: v rule: star.induct)
  case star_nil
  then show ?case by simp
next
  case (star_app xs ys)
  show ?case
  proof (cases xs)
    case Nil
    with star_app show ?thesis by simp
  next
    case (Cons a as)
    with star_app.prems have "a = c" and "v = as @ ys" by simp_all
    with Cons star_app.hyps show ?thesis by blast
  qed
qed

lemma lang_deriv: "lang (deriv c r) = {w. c # w \<in> lang r}"
proof (induction r)
  case (Seq r s)
  have "{w. c # w \<in> conc (lang r) (lang s)} =
        conc {w. c # w \<in> lang r} (lang s) \<union> (if [] \<in> lang r then {w. c # w \<in> lang s} else {})"
    by (auto simp: conc_def Cons_eq_append_conv)
  with Seq show ?case by (auto simp: nullable_lang)
next
  case (Star r)
  have "{w. c # w \<in> star (lang r)} = conc {w. c # w \<in> lang r} (star (lang r))"
  proof (intro set_eqI iffI)
    fix w assume "w \<in> {w. c # w \<in> star (lang r)}"
    then show "w \<in> conc {w. c # w \<in> lang r} (star (lang r))"
      using star_cons_split [of "c # w" "lang r" c w] by (auto simp: conc_def)
  next
    fix w assume "w \<in> conc {w. c # w \<in> lang r} (star (lang r))"
    then obtain u t where "w = u @ t" "c # u \<in> lang r" "t \<in> star (lang r)"
      by (auto simp: conc_def)
    then show "w \<in> {w. c # w \<in> star (lang r)}"
      using star_app [of "c # u" "lang r" t] by simp
  qed
  with Star show ?case by simp
qed (auto)

lemma lang_derivs: "lang (derivs r s) = {w. s @ w \<in> lang r}"
  by (induction s arbitrary: r) (simp_all add: lang_deriv)

lemma MatchString_lang: "MatchString r s \<longleftrightarrow> s \<in> lang r"
  by (simp add: MatchString_def nullable_lang lang_derivs)

lemma isValidEmail_lang: "isValidEmail s \<longleftrightarrow> s \<in> lang email_re"
  by (simp add: isValidEmail_def MatchString_lang)

section \<open>Store operations and the invariants\<close>

lemmas http_defs = http_Error_def Write_def WriteHeader_def Header_Set_def Encode_def new_rw_def
lemmas serve_defs = serve_def jsonContentTypeMiddleware_def reply_def store_def issued_def

lemma find_SomeD: "find P xs = Some x \<Longrightarrow> x \<in> set xs \<and> P x"
  by (induction xs) (auto split: if_splits)

lemma first_row_ErrNoRows: "first_row P d = ErrNoRows \<longleftrightarrow> (\<forall>r \<in> set (rows d). \<not> P r)"
  by (auto simp: first_row_def find_None_iff dest: find_SomeD split: option.splits)

lemma first_row_Scanned: "first_row P d = Scanned r \<Longrightarrow> r \<in> set (rows d) \<and> P r"
  by (auto simp: first_row_def dest: find_SomeD split: option.splits)

lemma first_row_not_SqlErr [simp]: "first_row P d \<noteq> SqlErr"
  by (simp add: first_row_def split: option.splits)

lemma wf_ids_pos: "wf_store d \<Longrightarrow> r \<in> set (rows d) \<Longrightarrow> 0 < ID r \<and> ID r \<le> seq d"
  by (simp add: wf_store_def list_all_iff)

text \<open>With positive identifiers, a lookup that leaves the identifier 0 found no row.\<close>

lemma lookup_zero_no_row:
  assumes "wf_store d" and "ID (scanned_into zero_user (first_row P d)) = 0"
  shows "\<forall>r \<in> set (rows d). \<not> P r"
proof (cases "first_row P d")
  case (Scanned r)
  with assms wf_ids_pos [of d r] first_row_Scanned [of P d r] show ?thesis by simp
qed (simp_all add: first_row_ErrNoRows)

lemma wf_insert: "wf_store d \<Longrightarrow> queryInsert e d n m = (res, d') \<Longrightarrow> wf_store d'"
  by (fastforce simp: queryInsert_def wf_store_def list_all_iff Let_def split: if_splits)

lemma map_ID_update:
  "map (ID \<circ> (\<lambda>r. if ID r = k then r\<lparr>Name := n, Email := m\<rparr> else r)) xs = map ID xs"
  by (induction xs) simp_all

lemma wf_update: "wf_store d \<Longrightarrow> execUpdate e d n m i = Some d' \<Longrightarrow> wf_store d'"
  by (auto simp: execUpdate_def wf_store_def list_all_iff map_ID_update
           split: if_splits option.splits)

lemma wf_delete: "wf_store d \<Longrightarrow> execDelete e d i = Some d' \<Longrightarrow> wf_store d'"
  by (auto simp: execDelete_def wf_store_def list_all_iff distinct_map_filter
           split: if_splits option.splits)

lemma store_createUser:
  "store (createUser e d body w) = d \<or>
   (\<exists>u. body = Some u \<and> Name u \<noteq> [] \<and> isValidEmail (Email u) \<and>
        queryByNameOrEmail e d (Name u) (Email u) \<noteq> SqlErr \<and>
        ID (scanned_into zero_user (queryByNameOrEmail e d (Name u) (Email u))) = 0 \<and>
        store (createUser e d body w) = snd (queryInsert e d (Name u) (Email u)))"
  by (auto simp: createUser_def store_def Let_def split: option.splits prod.splits scan.splits)

lemma store_updateUser:
  "store (updateUser e d i body w) = d \<or>
   (\<exists>u. body = Some u \<and> Name u \<noteq> [] \<and> Email u \<noteq> [] \<and>
        queryByEmailNotId e d (Email u) i \<noteq> SqlErr \<and>
        ID (scanned_into zero_user (queryByEmailNotId e d (Email u) i)) = 0 \<and>
        execUpdate e d (Name u) (Email u) i = Some (store (updateUser e d i body w)))"
  by (auto simp: updateUser_def store_def Let_def split: option.splits prod.splits scan.splits)

lemma store_deleteUser:
  "store (deleteUser e d i w) = d \<or> execDelete e d i = Some (store (deleteUser e d i w))"
  by (auto simp: deleteUser_def store_def split: option.splits)

lemma createUser_store_cases:
  obtains (same) "store (createUser e d body w) = d"
  | (inserted) u :: user where "Name u \<noteq> []" and "isValidEmail (Email u)"
      and "queryByNameOrEmail e d (Name u) (Email u) \<noteq> SqlErr"
      and "ID (scanned_into zero_user (queryByNameOrEmail e d (Name u) (Email u))) = 0"
      and "store (createUser e d body w) = snd (queryInsert e d (Name u) (Email u))"
  using store_createUser [of e d body w] by blast

lemma updateUser_store_cases:
  obtains (same) "store (updateUser e d i body w) = d"
  | (updated) u :: user where "Name u \<noteq> []" and "Email u \<noteq> []"
      and "queryByEmailNotId e d (Email u) i \<noteq> SqlErr"
      and "ID (scanned_into zero_user (queryByEmailNotId e d (Email u) i)) = 0"
      and "execUpdate e d (Name u) (Email u) i = Some (store (updateUser e d i body w))"
  using store_updateUser [of e d i body w] by blast

lemma deleteUser_store_cases:
  obtains (same) "store (deleteUser e d i w) = d"
  | (deleted) "execDelete e d i = Some (store (deleteUser e d i w))"
  using store_deleteUser [of e d i w] by blast

lemma store_getUsers [simp]: "store (getUsers e d w) = d"
  by (simp add: getUsers_def store_def split: option.splits)

lemma store_getUser [simp]: "store (getUser e d i w) = d"
  by (simp add: getUser_def store_def split: scan.splits)

lemma serve_router: "serve e d req = router e d req (Header_Set ''Content-Type'' ''application/json'' new_rw)"
  by (simp add: serve_def jsonContentTypeMiddleware_def)

lemma wf_store_serve: "wf_store d \<Longrightarrow> wf_store (store (serve e d req))"
proof (cases req)
  case (POST_users body)
  then show "wf_store d \<Longrightarrow> ?thesis"
    using store_createUser [of e d body] wf_insert [of d e]
    by (metis router.simps(3) serve_router surjective_pairing)
next
  case (PUT_user i body)
  then show "wf_store d \<Longrightarrow> ?thesis"
    using store_updateUser [of e d i body] wf_update [of d e]
    by (metis router.simps(4) serve_router)
next
  case (DELETE_user i)
  then show "wf_store d \<Longrightarrow> ?thesis"
    using store_deleteUser [of e d i] wf_delete [of d e]
    by (metis router.simps(5) serve_router)
qed (simp_all add: serve_router)

lemma distinct_update_email:
  assumes "distinct (map ID xs)" and "distinct (map Email xs)"
    and "\<forall>r \<in> set xs. Email r = m \<longrightarrow> ID r = k"
  shows "distinct (map Email (map (\<lambda>r. if ID r = k then r\<lparr>Name := n, Email := m\<rparr> else r) xs))"
  using assms
proof (induction xs)
  case Nil
  then show ?case by simp
next
  case (Cons x xs)
  let ?f = "\<lambda>r. if ID r = k then r\<lparr>Name := n, Email := m\<rparr> else r"
  from Cons have ih: "distinct (map Email (map ?f xs))"
    by simp
  show ?case
  proof (cases "ID x = k")
    case True
    have other: "\<forall>r \<in> set xs. ID r \<noteq> k"
    proof
      fix r assume "r \<in> set xs"
      then have "ID r \<in> ID ` set xs" by (rule imageI)
      with Cons.prems(1) True show "ID r \<noteq> k" by auto
    qed
    then have "map ?f xs = xs" by (simp add: map_idI)
    moreover from other Cons.prems(3) have "\<forall>r \<in> set xs. Email r \<noteq> m" by auto
    ultimately show ?thesis using True Cons.prems(2) by (auto simp: image_iff)
  next
    case False
    with Cons.prems(3) have ne: "Email x \<noteq> m" by auto
    have notin: "Email x \<notin> set (map Email (map ?f xs))"
    proof
      assume "Email x \<in> set (map Email (map ?f xs))"
      then obtain r where r: "r \<in> set xs" "Email x = Email (?f r)" by auto
      show False
      proof (cases "ID r = k")
        case True
        with r ne show False by simp
      next
        case False
        with r have "Email x = Email r" by simp
        with r(1) Cons.prems(2) show False by force
      qed
    qed
    from False have "map Email (map ?f (x # xs)) = Email x # map Email (map ?f xs)"
      by simp
    with ih notin show ?thesis by (simp del: set_map map_map)
  qed
qed

lemma execUpdate_rows:
  "execUpdate e d n m i = Some d' \<Longrightarrow>
   \<exists>k. conv e i = Some k \<and> seq d' = seq d \<and>
       rows d' = map (\<lambda>r. if ID r = k then r\<lparr>Name := n, Email := m\<rparr> else r) (rows d)"
  by (auto simp: execUpdate_def split: if_splits option.splits)

lemma execDelete_rows:
  "execDelete e d i = Some d' \<Longrightarrow>
   \<exists>k. conv e i = Some k \<and> seq d' = seq d \<and> rows d' = filter (\<lambda>r. ID r \<noteq> k) (rows d)"
  by (auto simp: execDelete_def split: if_splits option.splits)

lemma emails_insert:
  "uniq_emails d \<Longrightarrow> \<forall>r \<in> set (rows d). Email r \<noteq> m \<Longrightarrow> uniq_emails (snd (queryInsert e d n m))"
  by (auto simp: queryInsert_def uniq_emails_def Let_def)

lemma names_insert:
  "uniq_names d \<Longrightarrow> \<forall>r \<in> set (rows d). Name r \<noteq> n \<Longrightarrow> uniq_names (snd (queryInsert e d n m))"
  by (auto simp: queryInsert_def uniq_names_def Let_def)

lemma filled_insert:
  "filled d \<Longrightarrow> n \<noteq> [] \<Longrightarrow> m \<noteq> [] \<Longrightarrow> filled (snd (queryInsert e d n m))"
  by (auto simp: queryInsert_def filled_def Let_def)

lemma other_zero_no_row:
  assumes "wf_store d" and "queryByEmailNotId e d m i \<noteq> SqlErr"
    and "ID (scanned_into zero_user (queryByEmailNotId e d m i)) = 0"
  shows "\<exists>k. conv e i = Some k \<and> (\<forall>r \<in> set (rows d). Email r = m \<longrightarrow> ID r = k)"
proof (cases "conv e i")
  case None
  with assms(2) show ?thesis by (simp add: queryByEmailNotId_def split: if_splits)
next
  case (Some k)
  with assms(2,3) have "ID (scanned_into zero_user (first_row (\<lambda>r. Email r = m \<and> ID r \<noteq> k) d)) = 0"
    by (simp add: queryByEmailNotId_def split: if_splits)
  with assms(1) have "\<forall>r \<in> set (rows d). \<not> (Email r = m \<and> ID r \<noteq> k)"
    by (rule lookup_zero_no_row)
  with Some show ?thesis by blast
qed

lemma lookup_name_email_no_row:
  assumes "wf_store d" and "queryByNameOrEmail e d n m \<noteq> SqlErr"
    and "ID (scanned_into zero_user (queryByNameOrEmail e d n m)) = 0"
  shows "\<forall>r \<in> set (rows d). Name r \<noteq> n \<and> Email r \<noteq> m"
proof -
  from assms(2,3) have "ID (scanned_into zero_user (first_row (\<lambda>r. Name r = n \<or> Email r = m) d)) = 0"
    by (simp add: queryByNameOrEmail_def split: if_splits)
  with assms(1) have "\<forall>r \<in> set (rows d). \<not> (Name r = n \<or> Email r = m)"
    by (rule lookup_zero_no_row)
  then show ?thesis by simp
qed

lemma emails_update:
  assumes "wf_store d" and "uniq_emails d" and "execUpdate e d n m i = Some d'"
    and "conv e i = Some k" and "\<forall>r \<in> set (rows d). Email r = m \<longrightarrow> ID r = k"
  shows "uniq_emails d'"
proof -
  from assms(3,4) have "rows d' = map (\<lambda>r. if ID r = k then r\<lparr>Name := n, Email := m\<rparr> else r) (rows d)"
    by (auto simp: execUpdate_def split: if_splits)
  with assms(1,2,5) distinct_update_email [of "rows d" m k n] show ?thesis
    by (simp add: uniq_emails_def wf_store_def)
qed

lemma emails_delete: "uniq_emails d \<Longrightarrow> execDelete e d i = Some d' \<Longrightarrow> uniq_emails d'"
  by (auto simp: execDelete_def uniq_emails_def distinct_map_filter split: if_splits option.splits)

lemma names_delete: "uniq_names d \<Longrightarrow> execDelete e d i = Some d' \<Longrightarrow> uniq_names d'"
  by (auto simp: execDelete_def uniq_names_def distinct_map_filter split: if_splits option.splits)

lemma uniq_emails_serve:
  assumes "wf_store d" and "uniq_emails d"
  shows "uniq_emails (store (serve e d req))"
proof (cases req)
  case (POST_users body)
  let ?w = "Header_Set ''Content-Type'' ''application/json'' new_rw"
  have "uniq_emails (store (createUser e d body ?w))"
  proof (cases rule: createUser_store_cases [of e d body ?w])
    case same
    with assms show ?thesis by simp
  next
    case (inserted u)
    from assms(1) inserted(3,4)
    have "\<forall>r \<in> set (rows d). Name r \<noteq> Name u \<and> Email r \<noteq> Email u"
      by (rule lookup_name_email_no_row)
    with assms(2) inserted(5) show ?thesis by (simp add: emails_insert)
  qed
  with POST_users show ?thesis by (simp add: serve_router)
next
  case (PUT_user i body)
  let ?w = "Header_Set ''Content-Type'' ''application/json'' new_rw"
  have "uniq_emails (store (updateUser e d i body ?w))"
  proof (cases rule: updateUser_store_cases [of e d i body ?w])
    case same
    with assms show ?thesis by simp
  next
    case (updated u)
    from other_zero_no_row [OF assms(1) updated(3,4)] obtain k
      where "conv e i = Some k" "\<forall>r \<in> set (rows d). Email r = Email u \<longrightarrow> ID r = k"
      by blast
    with assms updated(5) show ?thesis by (rule emails_update)
  qed
  with PUT_user show ?thesis by (simp add: serve_router)
next
  case (DELETE_user i)
  let ?w = "Header_Set ''Content-Type'' ''application/json'' new_rw"
  have "uniq_emails (store (deleteUser e d i ?w))"
  proof (cases rule: deleteUser_store_cases [of e d i ?w])
    case same
    with assms show ?thesis by simp
  next
    case deleted
    with assms(2) show ?thesis by (rule emails_delete)
  qed
  with DELETE_user show ?thesis by (simp add: serve_router)
qed (simp_all add: serve_router assms)

lemma uniq_names_serve:
  assumes "wf_store d" and "uniq_names d" and "\<forall>i body. req \<noteq> PUT_user i body"
  shows "uniq_names (store (serve e d req))"
proof (cases req)
  case (POST_users body)
  let ?w = "Header_Set ''Content-Type'' ''application/json'' new_rw"
  have "uniq_names (store (createUser e d body ?w))"
  proof (cases rule: createUser_store_cases [of e d body ?w])
    case same
    with assms show ?thesis by simp
  next
    case (inserted u)
    from assms(1) inserted(3,4)
    have "\<forall>r \<in> set (rows d). Name r \<noteq> Name u \<and> Email r \<noteq> Email u"
      by (rule lookup_name_email_no_row)
    with assms(2) inserted(5) show ?thesis by (simp add: names_insert)
  qed
  with POST_users show ?thesis by (simp add: serve_router)
next
  case (PUT_user i body)
  with assms(3) show ?thesis by simp
next
  case (DELETE_user i)
  let ?w = "Header_Set ''Content-Type'' ''application/json'' new_rw"
  have "uniq_names (store (deleteUser e d i ?w))"
  proof (cases rule: deleteUser_store_cases [of e d i ?w])
    case same
    with assms show ?thesis by simp
  next
    case deleted
    with assms(2) show ?thesis by (rule names_delete)
  qed
  with DELETE_user show ?thesis by (simp add: serve_router)
qed (simp_all add: serve_router assms)

lemma isValidEmail_nonempty: "isValidEmail m \<Longrightarrow> m \<noteq> []"
  by (auto simp: isValidEmail_def MatchString_def email_re_def one_or_more_def two_or_more_def lit_def)

lemma filled_serve:
  assumes "filled d"
  shows "filled (store (serve e d req))"
proof (cases req)
  case (POST_users body)
  let ?w = "Header_Set ''Content-Type'' ''application/json'' new_rw"
  have "filled (store (createUser e d body ?w))"
  proof (cases rule: createUser_store_cases [of e d body ?w])
    case same
    with assms show ?thesis by simp
  next
    case (inserted u)
    with assms isValidEmail_nonempty [of "Email u"]
    show ?thesis by (simp add: filled_insert)
  qed
  with POST_users show ?thesis by (simp add: serve_router)
next
  case (PUT_user i body)
  let ?w = "Header_Set ''Content-Type'' ''application/json'' new_rw"
  have "filled (store (updateUser e d i body ?w))"
  proof (cases rule: updateUser_store_cases [of e d i body ?w])
    case same
    with assms show ?thesis by simp
  next
    case (updated u)
    from execUpdate_rows [OF updated(5)] obtain k where
      "rows (store (updateUser e d i body ?w)) =
         map (\<lambda>r. if ID r = k then r\<lparr>Name := Name u, Email := Email u\<rparr> else r) (rows d)"
      by blast
    with assms updated(1,2) show ?thesis by (auto simp: filled_def list_all_iff)
  qed
  with PUT_user show ?thesis by (simp add: serve_router)
next
  case (DELETE_user i)
  let ?w = "Header_Set ''Content-Type'' ''application/json'' new_rw"
  have "filled (store (deleteUser e d i ?w))"
  proof (cases rule: deleteUser_store_cases [of e d i ?w])
    case same
    with assms show ?thesis by simp
  next
    case deleted
    from execDelete_rows [OF deleted] obtain k
      where "rows (store (deleteUser e d i ?w)) = filter (\<lambda>r. ID r \<noteq> k) (rows d)"
      by blast
    with assms show ?thesis by (auto simp: filled_def list_all_iff)
  qed
  with DELETE_user show ?thesis by (simp add: serve_router)
qed (simp_all add: serve_router assms)

lemma reachable_invariants:
  "reachable d \<Longrightarrow> wf_store d \<and> uniq_emails d \<and> filled d"
proof (induction rule: reachable.induct)
  case reach_init
  show ?case by (simp add: init_db_def wf_store_def uniq_emails_def filled_def)
next
  case (reach_step d e req)
  then show ?case by (simp add: wf_store_serve uniq_emails_serve filled_serve)
qed

section \<open>Evaluation rules and facts about the lookups\<close>

lemmas regex_defs = isValidEmail_def MatchString_def email_re_def one_or_more_def two_or_more_def
  lit_def local_cls_def domain_cls_def alpha_cls_def alnum_def in_cls_def in_range_def

lemmas handler_defs = getUsers_def getUser_def createUser_def updateUser_def deleteUser_def
  queryAll_def queryById_def queryByNameOrEmail_def queryInsert_def queryByEmailNotId_def
  queryNameEmailById_def execUpdate_def execDelete_def first_row_def zero_user_def

lemmas example_defs = quiet_env_def flaky_env_def broken_env_def never_def fetch1_fails_def
  other1_fails_def db2_def row_a_def row_b_def init_db_def dec_id_def digit_val_def in_range_def

lemma serve_eval:
  "reply (serve e d req) = fst (router e d req (Header_Set ''Content-Type'' ''application/json'' new_rw))"
  "store (serve e d req) = fst (snd (router e d req (Header_Set ''Content-Type'' ''application/json'' new_rw)))"
  "issued (serve e d req) = snd (snd (router e d req (Header_Set ''Content-Type'' ''application/json'' new_rw)))"
  by (simp_all add: serve_router reply_def store_def issued_def)

lemma find_by_key:
  "distinct (map f xs) \<Longrightarrow> r \<in> set xs \<Longrightarrow> find (\<lambda>x. f x = f r) xs = Some r"
  by (induction xs) (auto simp: image_iff)

lemma same_key_same_row:
  "distinct (map f xs) \<Longrightarrow> r \<in> set xs \<Longrightarrow> s \<in> set xs \<Longrightarrow> f s = f r \<Longrightarrow> s = r"
  by (induction xs) (auto simp: image_iff)

lemma fetch_current:
  assumes "wf_store d" and "r \<in> set (rows d)" and "conv e i = Some (ID r)"
    and "\<not> fails e (SelectNameEmailById i)"
  shows "queryNameEmailById e d i = Scanned (zero_user\<lparr>Name := Name r, Email := Email r\<rparr>)"
proof -
  from assms(1,2) have "find (\<lambda>x. ID x = ID r) (rows d) = Some r"
    by (simp add: wf_store_def find_by_key)
  with assms(3,4) show ?thesis by (simp add: queryNameEmailById_def first_row_def)
qed

lemma owner_no_conflict:
  assumes "uniq_emails d" and "r \<in> set (rows d)" and "conv e i = Some (ID r)"
    and "\<not> fails e (SelectByEmailNotId (Email r) i)"
  shows "queryByEmailNotId e d (Email r) i = ErrNoRows"
proof -
  have "\<forall>s \<in> set (rows d). \<not> (Email s = Email r \<and> ID s \<noteq> ID r)"
    using assms(1,2) same_key_same_row [of Email "rows d" r] by (auto simp: uniq_emails_def)
  then have "first_row (\<lambda>s. Email s = Email r \<and> ID s \<noteq> ID r) d = ErrNoRows"
    by (simp add: first_row_ErrNoRows)
  with assms(3,4) show ?thesis by (simp add: queryByEmailNotId_def)
qed

lemma lookup_free:
  assumes "\<forall>r \<in> set (rows d). Name r \<noteq> n \<and> Email r \<noteq> m"
    and "\<not> fails e (SelectByNameOrEmail n m)"
  shows "queryByNameOrEmail e d n m = ErrNoRows"
proof -
  from assms(1) have "first_row (\<lambda>r. Name r = n \<or> Email r = m) d = ErrNoRows"
    by (simp add: first_row_ErrNoRows)
  with assms(2) show ?thesis by (simp add: queryByNameOrEmail_def)
qed

lemma find_appended:
  "\<forall>x \<in> set xs. \<not> P x \<Longrightarrow> P y \<Longrightarrow> find P (xs @ [y]) = Some y"
  by (induction xs) simp_all

lemma lookup_hit:
  assumes "wf_store d" and "r \<in> set (rows d)" and "P r"
  shows "\<exists>s. first_row P d = Scanned s \<and> ID s \<noteq> 0"
proof (cases "first_row P d")
  case SqlErr
  then show ?thesis by simp
next
  case ErrNoRows
  with assms(2,3) show ?thesis by (simp add: first_row_ErrNoRows)
next
  case (Scanned s)
  with assms(1) wf_ids_pos [of d s] first_row_Scanned [of P d s] show ?thesis by simp
qed

lemma uniqueness_preserved:
  assumes "wf_store d" and "uniq_emails d"
  shows "wf_store (store (serve e d req)) \<and> uniq_emails (store (serve e d req))
    \<and> (uniq_names d \<and> (\<forall>i body. req \<noteq> PUT_user i body) \<longrightarrow> uniq_names (store (serve e d req)))"
  using assms by (simp add: wf_store_serve uniq_emails_serve uniq_names_serve)

lemma updateUser_unknown_id:
  assumes "\<forall>r \<in> set (rows d). conv e i \<noteq> Some (ID r)"
  shows "body_of (reply (serve e d (PUT_user i body))) \<noteq> [Text ''No changes detected'']"
proof -
  have "queryNameEmailById e d i \<noteq> Scanned c" for c
  proof
    assume "queryNameEmailById e d i = Scanned c"
    then obtain k r where "conv e i = Some k" "first_row (\<lambda>r. ID r = k) d = Scanned r"
      by (auto simp: queryNameEmailById_def split: if_splits option.splits scan.splits)
    with first_row_Scanned [of "\<lambda>r. ID r = k" d r] assms show False by auto
  qed
  then show ?thesis
    by (cases "queryNameEmailById e d i")
       (auto simp: serve_eval updateUser_def http_defs Let_def split: option.splits)
qed

section \<open>The claims\<close>

text \<open>
  Claim C8. A POST whose decoded payload has an empty name, or an email that the pattern
  does not match, is answered 400 with the message
  \<^verbatim>\<open>Invalid input: Name is required and Email must be valid\<close>; the store is as it
  was and no statement has been issued, whatever the store holds and however the engine
  behaves.
\<close>

theorem createUser_rejects_invalid_input:
  assumes "Name u = [] \<or> \<not> isValidEmail (Email u)"
  shows "status_of (reply (serve e d (POST_users (Some u)))) = Some 400
    \<and> body_of (reply (serve e d (POST_users (Some u)))) =
        [Text ''Invalid input: Name is required and Email must be valid'']
    \<and> store (serve e d (POST_users (Some u))) = d
    \<and> issued (serve e d (POST_users (Some u))) = []"
  using assms by (auto simp: serve_eval createUser_def http_defs)

theorem createUser_rejects_invalid_input_witness:
  "\<not> isValidEmail (Email short_tld)
   \<and> status_of (reply (serve quiet_env db2 (POST_users (Some short_tld)))) = Some 400
   \<and> body_of (reply (serve quiet_env db2 (POST_users (Some short_tld)))) =
        [Text ''Invalid input: Name is required and Email must be valid'']
   \<and> store (serve quiet_env db2 (POST_users (Some short_tld))) = db2
   \<and> issued (serve quiet_env db2 (POST_users (Some short_tld))) = []"
proof -
  have h: "\<not> isValidEmail (Email short_tld)"
    by (simp add: short_tld_def regex_defs)
  then have "Name short_tld = [] \<or> \<not> isValidEmail (Email short_tld)" by simp
  from createUser_rejects_invalid_input [OF this, of quiet_env db2] h show ?thesis by simp
qed

text \<open>
  Claim C4. A DELETE whose statement the engine executes is answered 200 with the JSON
  string \<^verbatim>\<open>"User deleted"\<close>, whether or not a row has the identifier. The only
  statement issued is the DELETE itself, and the store afterwards is the store before
  without the rows of that identifier.
\<close>

theorem deleteUser_any_id:
  assumes "\<not> fails e (DeleteById i)" and "conv e i = Some k"
  shows "status_of (reply (serve e d (DELETE_user i))) = Some 200
    \<and> content_type_of (reply (serve e d (DELETE_user i))) = Some ''application/json''
    \<and> body_of (reply (serve e d (DELETE_user i))) = [Json (JString ''User deleted'')]
    \<and> issued (serve e d (DELETE_user i)) = [DeleteById i]
    \<and> store (serve e d (DELETE_user i)) = d\<lparr>rows := filter (\<lambda>r. ID r \<noteq> k) (rows d)\<rparr>"
  using assms by (simp add: serve_eval deleteUser_def execDelete_def http_defs)

theorem deleteUser_any_id_witness:
  "status_of (reply (serve quiet_env db2 (DELETE_user ''7''))) = Some 200
   \<and> body_of (reply (serve quiet_env db2 (DELETE_user ''7''))) = [Json (JString ''User deleted'')]
   \<and> issued (serve quiet_env db2 (DELETE_user ''7'')) = [DeleteById ''7'']
   \<and> store (serve quiet_env db2 (DELETE_user ''7'')) = db2
   \<and> status_of (reply (serve quiet_env db2 (DELETE_user ''1''))) = Some 200
   \<and> rows (store (serve quiet_env db2 (DELETE_user ''1''))) = [row_b]"
proof -
  have f: "\<not> fails quiet_env (DeleteById ''7'')" "\<not> fails quiet_env (DeleteById ''1'')"
    by (simp_all add: quiet_env_def never_def)
  have c: "conv quiet_env ''7'' = Some 7" "conv quiet_env ''1'' = Some 1"
    by (simp_all add: example_defs)
  from deleteUser_any_id [OF f(1) c(1), of db2] deleteUser_any_id [OF f(2) c(2), of db2]
  show ?thesis by (simp add: db2_def row_a_def row_b_def)
qed

text \<open>
  Claim C9. A GET of an identifier that no row has never produces a response: the
  process ends, whether the engine reports no rows, rejects the identifier or fails.
\<close>

theorem getUser_missing_row_fatal:
  assumes "\<forall>r \<in> set (rows d). conv e i \<noteq> Some (ID r)"
  shows "reply (serve e d (GET_user i)) = Fatal \<and> store (serve e d (GET_user i)) = d"
proof -
  have "queryById e d i \<noteq> Scanned u" for u
  proof
    assume "queryById e d i = Scanned u"
    then obtain k where "conv e i = Some k" "first_row (\<lambda>r. ID r = k) d = Scanned u"
      by (auto simp: queryById_def split: if_splits option.splits)
    with first_row_Scanned [of "\<lambda>r. ID r = k" d u] assms show False by auto
  qed
  then show ?thesis
    by (cases "queryById e d i") (auto simp: serve_eval getUser_def)
qed

theorem getUser_missing_row_fatal_witness:
  "reply (serve quiet_env db2 (GET_user ''7'')) = Fatal
   \<and> reply (serve quiet_env db2 (GET_user ''abc'')) = Fatal"
proof -
  have "\<forall>r \<in> set (rows db2). conv quiet_env ''7'' \<noteq> Some (ID r)"
       "\<forall>r \<in> set (rows db2). conv quiet_env ''abc'' \<noteq> Some (ID r)"
    by (simp_all add: example_defs)
  from getUser_missing_row_fatal [OF this(1)] getUser_missing_row_fatal [OF this(2)]
  show ?thesis by simp
qed

text \<open>
  Claim C10. In \<^verbatim>\<open>updateUser\<close>, for a payload with non-empty name and email: when the
  email lookup finds no other row and the fetch of the current name and email ends in
  any error, no rows or another one, the answer is 404 \<^verbatim>\<open>User not found\<close> and the
  store is unchanged; when the email lookup ends in an error other than no rows, the
  process ends; and the process ends only through the email lookup or the update
  statement, never through the fetch.
\<close>

theorem updateUser_fetch_error_not_found:
  assumes "Name u \<noteq> []" and "Email u \<noteq> []"
  shows "(queryByEmailNotId e d (Email u) i = ErrNoRows
          \<and> (queryNameEmailById e d i = SqlErr \<or> queryNameEmailById e d i = ErrNoRows)
          \<longrightarrow> status_of (reply (serve e d (PUT_user i (Some u)))) = Some 404
            \<and> body_of (reply (serve e d (PUT_user i (Some u)))) = [Text ''User not found'']
            \<and> store (serve e d (PUT_user i (Some u))) = d)
       \<and> (queryByEmailNotId e d (Email u) i = SqlErr
          \<longrightarrow> reply (serve e d (PUT_user i (Some u))) = Fatal)
       \<and> (reply (serve e d (PUT_user i (Some u))) = Fatal
          \<longrightarrow> queryByEmailNotId e d (Email u) i = SqlErr
            \<or> execUpdate e d (Name u) (Email u) i = None)"
  using assms
  by (auto simp: serve_eval updateUser_def http_defs zero_user_def Let_def
           split: scan.splits option.splits if_splits)

theorem updateUser_fetch_error_not_found_witness:
  "queryByEmailNotId flaky_env db2 (Email renamed_a) ''1'' = ErrNoRows
   \<and> queryNameEmailById flaky_env db2 ''1'' = SqlErr
   \<and> status_of (reply (serve flaky_env db2 (PUT_user ''1'' (Some renamed_a)))) = Some 404
   \<and> body_of (reply (serve flaky_env db2 (PUT_user ''1'' (Some renamed_a)))) = [Text ''User not found'']
   \<and> store (serve flaky_env db2 (PUT_user ''1'' (Some renamed_a))) = db2
   \<and> queryByEmailNotId broken_env db2 (Email renamed_a) ''1'' = SqlErr
   \<and> reply (serve broken_env db2 (PUT_user ''1'' (Some renamed_a))) = Fatal"
proof -
  have n: "Name renamed_a \<noteq> []" "Email renamed_a \<noteq> []"
    by (simp_all add: renamed_a_def)
  have q: "queryByEmailNotId flaky_env db2 (Email renamed_a) ''1'' = ErrNoRows"
      "queryNameEmailById flaky_env db2 ''1'' = SqlErr"
      "queryByEmailNotId broken_env db2 (Email renamed_a) ''1'' = SqlErr"
    by (simp_all add: renamed_a_def handler_defs example_defs)
  from updateUser_fetch_error_not_found [OF n, of flaky_env db2 "''1''"]
       updateUser_fetch_error_not_found [OF n, of broken_env db2 "''1''"] q
  show ?thesis by simp
qed

text \<open>
  Claim C2, as amended. Every response the five handlers send has one of the statuses
  200, 201, 400, 404, 409, 500. With 200 or 201 it carries
  \<^verbatim>\<open>Content-Type: application/json\<close>, the value the middleware set. With 400, 404,
  409 or 500 it was written by \<^verbatim>\<open>http.Error\<close>, which replaces the middleware's value,
  and it carries \<^verbatim>\<open>Content-Type: text/plain; charset=utf-8\<close>.
\<close>

theorem content_type_by_status:
  "reply (serve e d req) = Fatal
   \<or> (status_of (reply (serve e d req)) \<in> {Some 200, Some 201}
      \<and> content_type_of (reply (serve e d req)) = Some ''application/json'')
   \<or> (status_of (reply (serve e d req)) \<in> {Some 400, Some 404, Some 409, Some 500}
      \<and> content_type_of (reply (serve e d req)) = Some ''text/plain; charset=utf-8'')"
proof (cases req)
  case GET_users
  then show ?thesis by (simp add: serve_eval getUsers_def http_defs split: option.splits)
next
  case (GET_user i)
  then show ?thesis by (simp add: serve_eval getUser_def http_defs split: scan.splits)
next
  case (POST_users body)
  then show ?thesis
    by (simp add: serve_eval createUser_def http_defs Let_def split: option.splits scan.splits prod.splits)
next
  case (PUT_user i body)
  then show ?thesis
    by (simp add: serve_eval updateUser_def http_defs Let_def split: option.splits scan.splits)
next
  case (DELETE_user i)
  then show ?thesis by (simp add: serve_eval deleteUser_def http_defs split: option.splits)
qed

text \<open>
  Claim C2 as stated fails: the 400 response to a payload that does not decode does not
  carry \<^verbatim>\<open>Content-Type: application/json\<close>.
\<close>

theorem error_response_is_text_plain:
  "status_of (reply (serve quiet_env init_db (POST_users None))) = Some 400
   \<and> content_type_of (reply (serve quiet_env init_db (POST_users None))) \<noteq> Some ''application/json''"
  by (simp add: serve_eval createUser_def http_defs)

text \<open>
  Claim C3. On a store with the invariants of every reachable store, a PUT whose
  submitted name and email equal the name and email of the row its identifier denotes is
  answered 400 with \<^verbatim>\<open>No changes detected\<close> and changes nothing, provided the two
  lookups raise no store error. The identifier is any text the engine reads as that
  row's identifier. (When no row has the identifier there are no stored values to equal,
  and by \<open>updateUser_unknown_id\<close> the answer is never \<^verbatim>\<open>No changes detected\<close>.)
\<close>

theorem updateUser_no_changes:
  assumes "wf_store d" and "uniq_emails d" and "filled d"
    and "r \<in> set (rows d)" and "conv e i = Some (ID r)"
    and "Name u = Name r" and "Email u = Email r"
    and "\<not> fails e (SelectByEmailNotId (Email u) i)" and "\<not> fails e (SelectNameEmailById i)"
  shows "status_of (reply (serve e d (PUT_user i (Some u)))) = Some 400
    \<and> body_of (reply (serve e d (PUT_user i (Some u)))) = [Text ''No changes detected'']
    \<and> store (serve e d (PUT_user i (Some u))) = d"
proof -
  from assms(3,4,6,7) have ne: "Name u \<noteq> []" "Email u \<noteq> []"
    by (simp_all add: filled_def list_all_iff)
  from assms(2,4,5,7,8) have q1: "queryByEmailNotId e d (Email u) i = ErrNoRows"
    by (simp add: owner_no_conflict)
  from assms(1,4,5,9) have q2:
    "queryNameEmailById e d i = Scanned (zero_user\<lparr>Name := Name r, Email := Email r\<rparr>)"
    by (rule fetch_current)
  from ne q1 q2 assms(6,7) show ?thesis
    by (simp add: serve_eval updateUser_def http_defs zero_user_def)
qed

theorem updateUser_no_changes_witness:
  "reachable db2 \<and> row_a \<in> set (rows db2) \<and> conv quiet_env ''1'' = Some (ID row_a)
   \<and> Name same_a = Name row_a \<and> Email same_a = Email row_a
   \<and> status_of (reply (serve quiet_env db2 (PUT_user ''1'' (Some same_a)))) = Some 400
   \<and> body_of (reply (serve quiet_env db2 (PUT_user ''1'' (Some same_a)))) = [Text ''No changes detected'']
   \<and> store (serve quiet_env db2 (PUT_user ''1'' (Some same_a))) = db2"
proof -
  have v: "isValidEmail ''a@b.co''" "isValidEmail ''b@b.co''"
    by (simp_all add: regex_defs)
  have s1: "store (serve quiet_env init_db (POST_users (Some row_a))) = \<lparr>rows = [row_a], seq = 1\<rparr>"
    using v by (simp add: serve_eval handler_defs example_defs Let_def)
  have s2: "store (serve quiet_env \<lparr>rows = [row_a], seq = 1\<rparr> (POST_users (Some row_b))) = db2"
    using v by (simp add: serve_eval handler_defs example_defs Let_def)
  have "reachable (store (serve quiet_env init_db (POST_users (Some row_a))))"
    by (rule reach_step) (rule reach_init)
  then have "reachable (store (serve quiet_env \<lparr>rows = [row_a], seq = 1\<rparr> (POST_users (Some row_b))))"
    unfolding s1 by (rule reach_step)
  then have re: "reachable db2" by (simp only: s2)
  then have inv: "wf_store db2" "uniq_emails db2" "filled db2"
    by (simp_all add: reachable_invariants)
  have h: "row_a \<in> set (rows db2)" "conv quiet_env ''1'' = Some (ID row_a)"
     "Name same_a = Name row_a" "Email same_a = Email row_a"
     "\<not> fails quiet_env (SelectByEmailNotId (Email same_a) ''1'')"
     "\<not> fails quiet_env (SelectNameEmailById ''1'')"
    by (simp_all add: same_a_def example_defs)
  from updateUser_no_changes [OF inv h] re h show ?thesis by simp
qed

text \<open>
  Claim C5. For a payload with a non-empty name and an email matching the pattern, on a
  store where no row has that name or that email, and when the lookup and the insert
  raise no store error: POST is answered 201 with the user under the identifier
  \<open>seq d + 1\<close>, which is positive and is the identifier of no row that was there; and
  a following GET of any path text the engine reads as that identifier is answered 200
  with that identifier, the same name and the same email.
\<close>

theorem createUser_then_getUser:
  assumes "wf_store d" and "Name u \<noteq> []" and "isValidEmail (Email u)"
    and "\<forall>r \<in> set (rows d). Name r \<noteq> Name u \<and> Email r \<noteq> Email u"
    and "\<not> fails e (SelectByNameOrEmail (Name u) (Email u))"
    and "\<not> fails e (InsertUser (Name u) (Email u))"
  shows "status_of (reply (serve e d (POST_users (Some u)))) = Some 201
    \<and> body_of (reply (serve e d (POST_users (Some u)))) = [Json (JUser (u\<lparr>ID := seq d + 1\<rparr>))]
    \<and> 0 < seq d + 1
    \<and> seq d + 1 \<notin> ID ` set (rows d)
    \<and> (\<forall>e' p. conv e' p = Some (seq d + 1) \<and> \<not> fails e' (SelectById p) \<longrightarrow>
          status_of (reply (serve e' (store (serve e d (POST_users (Some u)))) (GET_user p))) = Some 200
          \<and> body_of (reply (serve e' (store (serve e d (POST_users (Some u)))) (GET_user p))) =
             [Json (JUser \<lparr>ID = seq d + 1, Name = Name u, Email = Email u\<rparr>)])"
proof -
  let ?k = "seq d + 1"
  let ?new = "\<lparr>ID = ?k, Name = Name u, Email = Email u\<rparr>"
  from assms(4,5) have q: "queryByNameOrEmail e d (Name u) (Email u) = ErrNoRows"
    by (rule lookup_free)
  from assms(6) have ins: "queryInsert e d (Name u) (Email u) =
      (Scanned ?k, d\<lparr>rows := rows d @ [?new], seq := ?k\<rparr>)"
    by (simp add: queryInsert_def Let_def)
  from assms(2,3) q ins have post:
    "reply (serve e d (POST_users (Some u))) = 
       Replied (Encode (JUser (u\<lparr>ID := ?k\<rparr>)) (WriteHeader 201 (Header_Set ''Content-Type'' ''application/json'' new_rw)))"
    "store (serve e d (POST_users (Some u))) = d\<lparr>rows := rows d @ [?new], seq := ?k\<rparr>"
    by (simp_all add: serve_eval createUser_def zero_user_def)
  from assms(1) have fresh: "\<forall>r \<in> set (rows d). ID r \<noteq> ?k" and pos: "0 < ?k"
    by (auto simp: wf_store_def list_all_iff)
  have get: "status_of (reply (serve e' (store (serve e d (POST_users (Some u)))) (GET_user p))) = Some 200
      \<and> body_of (reply (serve e' (store (serve e d (POST_users (Some u)))) (GET_user p))) = [Json (JUser ?new)]"
    if "conv e' p = Some ?k" and "\<not> fails e' (SelectById p)" for e' p
  proof -
    from fresh have "find (\<lambda>r. ID r = ?k) (rows d @ [?new]) = Some ?new"
      by (intro find_appended) simp_all
    with that have "queryById e' (d\<lparr>rows := rows d @ [?new], seq := ?k\<rparr>) p = Scanned ?new"
      by (simp add: queryById_def first_row_def)
    then show ?thesis unfolding post(2) by (simp add: serve_eval getUser_def http_defs)
  qed
  from post(1) have "status_of (reply (serve e d (POST_users (Some u)))) = Some 201"
    and "body_of (reply (serve e d (POST_users (Some u)))) = [Json (JUser (u\<lparr>ID := ?k\<rparr>))]"
    by (simp_all add: http_defs)
  moreover from fresh have "?k \<notin> ID ` set (rows d)" by auto
  ultimately show ?thesis using pos get by blast
qed

theorem createUser_then_getUser_witness:
  "wf_store db2 \<and> isValidEmail (Email carol)
   \<and> status_of (reply (serve quiet_env db2 (POST_users (Some carol)))) = Some 201
   \<and> body_of (reply (serve quiet_env db2 (POST_users (Some carol)))) =
        [Json (JUser \<lparr>ID = 3, Name = ''C'', Email = ''c@b.co''\<rparr>)]
   \<and> conv quiet_env ''3'' = Some 3
   \<and> status_of (reply (serve quiet_env (store (serve quiet_env db2 (POST_users (Some carol))))
        (GET_user ''3''))) = Some 200
   \<and> body_of (reply (serve quiet_env (store (serve quiet_env db2 (POST_users (Some carol))))
        (GET_user ''3''))) = [Json (JUser \<lparr>ID = 3, Name = ''C'', Email = ''c@b.co''\<rparr>)]"
proof -
  have wf: "wf_store db2"
    by (simp add: wf_store_def example_defs)
  have h: "Name carol \<noteq> []" "isValidEmail (Email carol)"
     "\<forall>r \<in> set (rows db2). Name r \<noteq> Name carol \<and> Email r \<noteq> Email carol"
     "\<not> fails quiet_env (SelectByNameOrEmail (Name carol) (Email carol))"
     "\<not> fails quiet_env (InsertUser (Name carol) (Email carol))"
    by (simp_all add: carol_def regex_defs example_defs)
  have c: "conv quiet_env ''3'' = Some (seq db2 + 1)" "\<not> fails quiet_env (SelectById ''3'')"
    by (simp_all add: example_defs)
  have s: "seq db2 + 1 = 3" by (simp add: db2_def)
  from createUser_then_getUser [OF wf h] c wf h(2) show ?thesis
    by (simp add: s carol_def)
qed

text \<open>
  Claim C7, as amended. A POST whose name or email equals that of a stored row is never
  answered 201 and never changes the store; it is answered 409 with
  \<^verbatim>\<open>User with the same name or email already exists\<close> whenever its payload passes
  validation (name non-empty, email matching the pattern) and the lookup raises no store
  error.
\<close>

theorem createUser_duplicate:
  assumes "wf_store d" and "r \<in> set (rows d)" and "Name u = Name r \<or> Email u = Email r"
  shows "status_of (reply (serve e d (POST_users (Some u)))) \<noteq> Some 201
    \<and> store (serve e d (POST_users (Some u))) = d
    \<and> (Name u \<noteq> [] \<and> isValidEmail (Email u)
         \<and> \<not> fails e (SelectByNameOrEmail (Name u) (Email u)) \<longrightarrow>
       status_of (reply (serve e d (POST_users (Some u)))) = Some 409
       \<and> body_of (reply (serve e d (POST_users (Some u)))) =
           [Text ''User with the same name or email already exists''])"
proof -
  from assms have "Name r = Name u \<or> Email r = Email u" by auto
  with lookup_hit [OF assms(1,2), of "\<lambda>r. Name r = Name u \<or> Email r = Email u"]
  obtain s where s: "first_row (\<lambda>r. Name r = Name u \<or> Email r = Email u) d = Scanned s" "ID s \<noteq> 0"
    by blast
  then show ?thesis
    by (simp add: serve_eval createUser_def queryByNameOrEmail_def http_defs Let_def)
qed

theorem createUser_duplicate_witness:
  "wf_store db2 \<and> row_a \<in> set (rows db2) \<and> Email dup_email = Email row_a
   \<and> isValidEmail (Email dup_email)
   \<and> status_of (reply (serve quiet_env db2 (POST_users (Some dup_email)))) = Some 409
   \<and> body_of (reply (serve quiet_env db2 (POST_users (Some dup_email)))) =
        [Text ''User with the same name or email already exists'']
   \<and> store (serve quiet_env db2 (POST_users (Some dup_email))) = db2"
proof -
  have wf: "wf_store db2"
    by (simp add: wf_store_def example_defs)
  have h: "row_a \<in> set (rows db2)" "Name dup_email = Name row_a \<or> Email dup_email = Email row_a"
    by (simp_all add: dup_email_def example_defs)
  have v: "Name dup_email \<noteq> []" "isValidEmail (Email dup_email)"
    "\<not> fails quiet_env (SelectByNameOrEmail (Name dup_email) (Email dup_email))"
    "Email dup_email = Email row_a"
    by (simp_all add: dup_email_def regex_defs example_defs)
  from createUser_duplicate [OF wf h, of quiet_env] wf h(1) v show ?thesis by simp
qed

text \<open>
  Claim C7 as stated fails: a POST with the name of a stored row and an email the
  pattern rejects is stopped by validation, and answered 400 rather than 409.
\<close>

theorem createUser_duplicate_invalid_is_400:
  "row_a \<in> set (rows db2) \<and> Name dup_name_bad_email = Name row_a
   \<and> status_of (reply (serve quiet_env db2 (POST_users (Some dup_name_bad_email)))) = Some 400
   \<and> status_of (reply (serve quiet_env db2 (POST_users (Some dup_name_bad_email)))) \<noteq> Some 409"
proof -
  have "\<not> isValidEmail ''not-an-email''"
    by (simp add: regex_defs)
  then show ?thesis
    by (simp add: dup_name_bad_email_def serve_eval createUser_def http_defs db2_def row_a_def Let_def)
qed

text \<open>
  Claim C6, as amended. Let the submitted email be the email of a stored row. If that
  row's identifier differs from the path identifier, the submitted name and email are
  non-empty and the lookup raises no store error, the PUT is answered 409 with
  \<^verbatim>\<open>Email already in use by another user\<close> and changes nothing. If that row is the
  one the path identifier denotes (emails being pairwise distinct), the PUT is never
  answered 409.
\<close>

theorem updateUser_email_conflict:
  assumes "wf_store d" and "r \<in> set (rows d)" and "Email u = Email r" and "conv e i = Some k"
  shows "(ID r \<noteq> k \<and> Name u \<noteq> [] \<and> Email u \<noteq> []
          \<and> \<not> fails e (SelectByEmailNotId (Email u) i) \<longrightarrow>
          status_of (reply (serve e d (PUT_user i (Some u)))) = Some 409
          \<and> body_of (reply (serve e d (PUT_user i (Some u)))) =
              [Text ''Email already in use by another user'']
          \<and> store (serve e d (PUT_user i (Some u))) = d)
       \<and> (ID r = k \<and> uniq_emails d \<longrightarrow>
          status_of (reply (serve e d (PUT_user i (Some u)))) \<noteq> Some 409)"
proof (intro conjI impI)
  assume a: "ID r \<noteq> k \<and> Name u \<noteq> [] \<and> Email u \<noteq> [] \<and> \<not> fails e (SelectByEmailNotId (Email u) i)"
  with assms(3) have "Email r = Email u \<and> ID r \<noteq> k" by simp
  with lookup_hit [OF assms(1,2), of "\<lambda>r. Email r = Email u \<and> ID r \<noteq> k"]
  obtain s where s: "first_row (\<lambda>r. Email r = Email u \<and> ID r \<noteq> k) d = Scanned s" "ID s \<noteq> 0"
    by blast
  with a assms(4) have q: "queryByEmailNotId e d (Email u) i = Scanned s"
    by (simp add: queryByEmailNotId_def)
  with a s(2) show "status_of (reply (serve e d (PUT_user i (Some u)))) = Some 409"
    and "body_of (reply (serve e d (PUT_user i (Some u)))) = [Text ''Email already in use by another user'']"
    and "store (serve e d (PUT_user i (Some u))) = d"
    by (simp_all add: serve_eval updateUser_def http_defs Let_def)
next
  assume a: "ID r = k \<and> uniq_emails d"
  have "queryByEmailNotId e d (Email u) i = SqlErr \<or> queryByEmailNotId e d (Email u) i = ErrNoRows"
  proof (cases "fails e (SelectByEmailNotId (Email u) i)")
    case True
    then show ?thesis by (simp add: queryByEmailNotId_def)
  next
    case False
    with a assms(2,3,4) owner_no_conflict [of d r e i] show ?thesis by simp
  qed
  then show "status_of (reply (serve e d (PUT_user i (Some u)))) \<noteq> Some 409"
    by (auto simp: serve_eval updateUser_def http_defs zero_user_def Let_def
             split: scan.splits option.splits)
qed

theorem updateUser_email_conflict_witness:
  "wf_store db2 \<and> uniq_emails db2 \<and> row_a \<in> set (rows db2) \<and> Email dup_email = Email row_a
   \<and> conv quiet_env ''2'' = Some 2 \<and> ID row_a \<noteq> 2
   \<and> status_of (reply (serve quiet_env db2 (PUT_user ''2'' (Some dup_email)))) = Some 409
   \<and> body_of (reply (serve quiet_env db2 (PUT_user ''2'' (Some dup_email)))) =
        [Text ''Email already in use by another user'']
   \<and> store (serve quiet_env db2 (PUT_user ''2'' (Some dup_email))) = db2
   \<and> conv quiet_env ''1'' = Some 1 \<and> ID row_a = 1
   \<and> status_of (reply (serve quiet_env db2 (PUT_user ''1'' (Some dup_email)))) \<noteq> Some 409"
proof -
  have wf: "wf_store db2" and ue: "uniq_emails db2"
    by (simp_all add: wf_store_def uniq_emails_def example_defs)
  have h: "row_a \<in> set (rows db2)" "Email dup_email = Email row_a"
    by (simp_all add: dup_email_def example_defs)
  have c: "conv quiet_env ''2'' = Some 2" "conv quiet_env ''1'' = Some 1"
    by (simp_all add: example_defs)
  have v: "ID row_a \<noteq> 2" "ID row_a = 1" "Name dup_email \<noteq> []" "Email dup_email \<noteq> []"
    "\<not> fails quiet_env (SelectByEmailNotId (Email dup_email) ''2'')"
    by (simp_all add: dup_email_def example_defs)
  from updateUser_email_conflict [OF wf h c(1)] updateUser_email_conflict [OF wf h c(2)]
    wf ue h c v
  show ?thesis by simp
qed

text \<open>
  Claim C6 as stated fails: a PUT with an email stored under another identifier and an
  empty name is stopped by the check of the required fields, and answered 400.
\<close>

theorem updateUser_conflict_empty_name_is_400:
  "row_a \<in> set (rows db2) \<and> Email no_name_dup_email = Email row_a
   \<and> conv quiet_env ''2'' = Some 2 \<and> ID row_a \<noteq> 2
   \<and> status_of (reply (serve quiet_env db2 (PUT_user ''2'' (Some no_name_dup_email)))) = Some 400
   \<and> body_of (reply (serve quiet_env db2 (PUT_user ''2'' (Some no_name_dup_email)))) =
        [Text ''Name and Email are required'']"
  by (simp add: no_name_dup_email_def serve_eval updateUser_def http_defs example_defs Let_def)

text \<open>
  Claim C1. The claim is that every operation keeps names and emails pairwise distinct.
  \<^verbatim>\<open>updateUser\<close> looks only for another row with the submitted email; the name is
  not looked up, as it is in \<^verbatim>\<open>createUser\<close>. On a store with the rows
  (1, A, a@b.co) and (2, B, b@b.co), all names and all emails distinct,
  \<^verbatim>\<open>PUT /users/2\<close> with name A and email b@b.co is answered 200 and leaves two rows
  named A. What does hold of every operation is \<open>uniqueness_preserved\<close> above.
\<close>

theorem updateUser_duplicates_name:
  "wf_store db2 \<and> uniq_names db2 \<and> uniq_emails db2
   \<and> status_of (reply (serve quiet_env db2 (PUT_user ''2'' (Some b_takes_name_a)))) = Some 200
   \<and> rows (store (serve quiet_env db2 (PUT_user ''2'' (Some b_takes_name_a)))) =
        [row_a, \<lparr>ID = 2, Name = ''A'', Email = ''b@b.co''\<rparr>]
   \<and> \<not> uniq_names (store (serve quiet_env db2 (PUT_user ''2'' (Some b_takes_name_a))))"
  by (simp add: b_takes_name_a_def serve_eval handler_defs http_defs example_defs
      wf_store_def uniq_names_def uniq_emails_def Let_def)

end
